theory Spec2Isabelle
  imports Complex_Main
begin

section \<open>The stellar-mass-function model of \<open>pso_multidiff.py\<close>\<close>

text \<open>
  The script fits two parameters of a stellar mass function (SMF). Every quantity is a
  floating-point number in the source. The definitions that carry the names of the
  source are its formulas over the real numbers, with the mathematical error function:
  a statement proved of them is a statement about the source in exact arithmetic. The
  definitions with the suffix \<open>_f32\<close> are a second reading of \<open>calc_smf_cdf\<close>,
  \<open>calc_smf_bin\<close> and \<open>calc_partial_sumstats_from_params\<close>, in which every operation is
  rounded to float32, as the runtime does by default; the two readings differ, and the
  second one shows where a property of the exact formulas is lost to rounding.
  Where the source raises, the model returns an \<open>error\<close>. Where real arithmetic has no
  value (a division by zero, the logarithm of a non-positive number) the source yields
  \<open>inf\<close> or \<open>nan\<close> without raising; HOL's total operations give \<open>x / 0 = 0\<close> and
  \<open>ln 0 = 0\<close> there.
\<close>

subsection \<open>Errors\<close>

text \<open>
  The exceptions of the source's raising paths. JAX raises \<open>TypeError\<close> when two arrays
  cannot be broadcast against each other.
\<close>

datatype error = TypeError | IndexError | ValueError | ZeroDivisionError

subsection \<open>Library functions used by the script\<close>

text \<open>
  \<open>jax.scipy.special.erf\<close> is the error function
  \<open>erf x = 2 / sqrt pi * \<integral>\<^bsub>0\<^esub>\<^bsup>x\<^esup> exp (- t\<^sup>2) dt\<close>. It is defined here by its power
  series \<open>2 / sqrt pi * (\<Sum>n. (-1) ^ n * x ^ (2 * n + 1) / (fact n * (2 * n + 1)))\<close>,
  written as \<open>x\<close> times a series in \<open>x\<^sup>2\<close>.
\<close>

definition erf_coeff :: "nat \<Rightarrow> real" where
  "erf_coeff n = (- 1) ^ n / (fact n * (2 * real n + 1))"

definition erf_series :: "real \<Rightarrow> real" where
  "erf_series y = (\<Sum>n. erf_coeff n * y ^ n)"

definition gauss_integral :: "real \<Rightarrow> real" where
  "gauss_integral x = x * erf_series (x * x)"

definition erf :: "real \<Rightarrow> real" where
  "erf x = 2 / sqrt pi * gauss_integral x"



text \<open>
  \<open>jnp.linspace(start, stop, num)\<close>: \<open>num\<close> evenly spaced samples over the closed
  interval; a single sample is \<open>start\<close>.
\<close>

definition linspace :: "real \<Rightarrow> real \<Rightarrow> nat \<Rightarrow> real list" where
  "linspace start stop num =
     (if num = 1 then [start]
      else map (\<lambda>i. start + real i * ((stop - start) / real (num - 1))) [0..<num])"

text \<open>
  \<open>np.array_split(ary, Nsections)\<close> for an integer number of sections:
  \<^verbatim>\<open>
    Neach_section, extras = divmod(Ntotal, Nsections)
    section_sizes = ([0] + extras * [Neach_section + 1]
                     + (Nsections - extras) * [Neach_section])
    div_points = array(section_sizes).cumsum()
    sub_arys = [ary[div_points[i]:div_points[i + 1]] for i in range(Nsections)]
  \<close>
  with \<open>ValueError\<close> when \<open>Nsections <= 0\<close>.
\<close>

definition section_sizes :: "nat \<Rightarrow> nat \<Rightarrow> nat list" where
  "section_sizes Ntotal Nsections =
     [0] @ replicate (Ntotal mod Nsections) (Ntotal div Nsections + 1)
         @ replicate (Nsections - Ntotal mod Nsections) (Ntotal div Nsections)"

fun cumsum_from :: "nat \<Rightarrow> nat list \<Rightarrow> nat list" where
  "cumsum_from acc [] = []"
| "cumsum_from acc (x # xs) = (acc + x) # cumsum_from (acc + x) xs"

definition cumsum :: "nat list \<Rightarrow> nat list" where
  "cumsum xs = cumsum_from 0 xs"

definition slice :: "'a list \<Rightarrow> nat \<Rightarrow> nat \<Rightarrow> 'a list" where
  "slice ary st en = take (en - st) (drop st ary)"

definition array_split :: "'a list \<Rightarrow> nat \<Rightarrow> error + 'a list list" where
  "array_split ary Nsections =
     (if Nsections = 0 then Inl ValueError
      else let div_points = cumsum (section_sizes (length ary) Nsections)
           in Inr (map (\<lambda>i. slice ary (div_points ! i) (div_points ! (i + 1))) [0..<Nsections]))"

text \<open>\<open>jnp.mean\<close> of a one-dimensional array, and the broadcasting subtraction.\<close>

definition jnp_mean :: "real list \<Rightarrow> real" where
  "jnp_mean xs = sum_list xs / real (length xs)"

definition broadcast_sub :: "real list \<Rightarrow> real list \<Rightarrow> error + real list" where
  "broadcast_sub xs ys =
     (if length xs = length ys then Inr (map2 (-) xs ys)
      else if length xs = 1 then Inr (map (\<lambda>y. hd xs - y) ys)
      else if length ys = 1 then Inr (map (\<lambda>x. x - hd ys) xs)
      else Inl TypeError)"

subsection \<open>The communicator\<close>

text \<open>An MPI communicator, as far as the script reads it: \<open>comm.size\<close> and \<open>comm.rank\<close>.\<close>

record comm =
  comm_size :: nat
  comm_rank :: nat

subsection \<open>\<open>ParamTuple\<close>\<close>

record ParamTuple =
  log_shmrat :: real
  sigma_logsm :: real

text \<open>
  \<open>ParamTuple(*params)\<close>: the fields are filled in order, a missing field takes its
  default (\<open>-2.0\<close> and \<open>0.2\<close>), and more than two values raise \<open>TypeError\<close>.
\<close>

fun ParamTuple_of :: "real list \<Rightarrow> error + ParamTuple" where
  "ParamTuple_of [] = Inr \<lparr>log_shmrat = - 2.0, sigma_logsm = 0.2\<rparr>"
| "ParamTuple_of [a] = Inr \<lparr>log_shmrat = a, sigma_logsm = 0.2\<rparr>"
| "ParamTuple_of [a, b] = Inr \<lparr>log_shmrat = a, sigma_logsm = b\<rparr>"
| "ParamTuple_of (a # b # c # rest) = Inl TypeError"

subsection \<open>\<open>load_halo_masses\<close>\<close>

text \<open>
  \<open>comm=None\<close> selects \<open>MPI.COMM_WORLD\<close>, here the parameter \<open>world\<close>.
  \<open>1/(slope+1)\<close> is a Python division and raises \<open>ZeroDivisionError\<close> for
  \<open>slope = -1\<close>. The power \<open>(1 - q) ** e\<close> is \<open>powr\<close>, which is the real power for a
  positive base. A negative \<open>num_halos\<close> is refused by \<open>jnp.linspace\<close>.
\<close>

definition mhalo_of :: "int \<Rightarrow> real \<Rightarrow> real \<Rightarrow> real \<Rightarrow> real list" where
  "mhalo_of num_halos slope mmin qmax =
     map (\<lambda>q. mmin * (1 - q) powr (1 / (slope + 1))) (linspace 0 qmax (nat num_halos))"

definition load_halo_masses ::
  "comm \<Rightarrow> int \<Rightarrow> real \<Rightarrow> real \<Rightarrow> real \<Rightarrow> comm option \<Rightarrow> error + real list" where
  "load_halo_masses world num_halos slope mmin qmax comm_arg =
     (let c = (case comm_arg of None \<Rightarrow> world | Some c' \<Rightarrow> c')
      in if num_halos < 0 then Inl ValueError
         else if slope + 1 = 0 then Inl ZeroDivisionError
         else case array_split (mhalo_of num_halos slope mmin qmax) (comm_size c) of
                Inl e \<Rightarrow> Inl e
              | Inr parts \<Rightarrow>
                  if comm_rank c < length parts then Inr (parts ! comm_rank c)
                  else Inl IndexError)"

text \<open>The defaults of the signature: \<open>slope=-2, mmin=10.0 ** 10, qmax=0.95\<close>.\<close>

definition load_halo_masses_default :: "comm \<Rightarrow> int \<Rightarrow> comm option \<Rightarrow> error + real list" where
  "load_halo_masses_default world num_halos comm_arg =
     load_halo_masses world num_halos (- 2) (10 ^ 10) 0.95 comm_arg"

subsection \<open>SMF helper functions\<close>

text \<open>
  \<open>calc_smf_cdf\<close> is applied to an array of means by broadcasting; the model is the
  function on one element and \<open>calc_smf_bin\<close> maps it over the array. Both definitions
  are the formulas in exact arithmetic; their float32 readings follow further down.
\<close>

definition calc_smf_cdf :: "real \<Rightarrow> real \<Rightarrow> real \<Rightarrow> real" where
  "calc_smf_cdf logsm mean_logsm sigma =
     0.5 * (1 + erf ((logsm - mean_logsm) / (sqrt 2 * sigma)))"

definition calc_smf_bin ::
  "real list \<Rightarrow> real \<Rightarrow> real \<Rightarrow> real \<Rightarrow> real list \<Rightarrow> error + real" where
  "calc_smf_bin params logsm_low logsm_high vol lhm =
     (case ParamTuple_of params of
        Inl e \<Rightarrow> Inl e
      | Inr p \<Rightarrow>
          let mean_logsm = map (\<lambda>m. m + log_shmrat p) lhm;
              cdf_high = map (\<lambda>m. calc_smf_cdf logsm_high m (sigma_logsm p)) mean_logsm;
              cdf_low = map (\<lambda>m. calc_smf_cdf logsm_low m (sigma_logsm p)) mean_logsm
          in Inr (sum_list (map2 (-) cdf_high cdf_low) / vol / (logsm_high - logsm_low)))"

text \<open>
  The value of one bin for unpacked parameters, with the two arrays of CDF values
  fused into one sum over the halos (used in the proofs).
\<close>

definition smf_bin_value :: "ParamTuple \<Rightarrow> real \<Rightarrow> real \<Rightarrow> real \<Rightarrow> real list \<Rightarrow> real" where
  "smf_bin_value p logsm_low logsm_high vol lhm =
     (\<Sum>m\<leftarrow>lhm. calc_smf_cdf logsm_high (m + log_shmrat p) (sigma_logsm p)
                - calc_smf_cdf logsm_low (m + log_shmrat p) (sigma_logsm p))
       / vol / (logsm_high - logsm_low)"

subsection \<open>\<open>MySMFModel\<close>\<close>

text \<open>
  \<open>dynamic_data\<close> is the dictionary the driver builds, with its four keys as fields.
  The base class \<open>multidiff.MultiDiffOnePointModel\<close> is not part of the source here; the
  two methods below read no field of it. A method takes \<open>self\<close> and returns its result
  together with \<open>self\<close> as the call leaves it.
\<close>

record dynamic_data =
  log_halo_masses :: "real list"
  smf_bin_edges :: "real list"
  volume :: real
  target_sumstats :: "real list"

record MySMFModel =
  dynamic_data :: dynamic_data
  loss_func_has_aux :: bool

definition MySMFModel_init :: "dynamic_data \<Rightarrow> MySMFModel" where
  "MySMFModel_init d = \<lparr>dynamic_data = d, loss_func_has_aux = False\<rparr>"

text \<open>
  The loop \<open>for logsm_high in bin_edges[1:]\<close> with its two loop-carried variables
  \<open>logsm_low\<close> and \<open>smf\<close>.
\<close>

fun smf_loop ::
  "real list \<Rightarrow> real \<Rightarrow> real list \<Rightarrow> real \<Rightarrow> real list \<Rightarrow> real list \<Rightarrow> error + real list" where
  "smf_loop params vol lhm logsm_low [] smf = Inr smf"
| "smf_loop params vol lhm logsm_low (logsm_high # rest) smf =
     (case calc_smf_bin params logsm_low logsm_high vol lhm of
        Inl e \<Rightarrow> Inl e
      | Inr smf_bin \<Rightarrow> smf_loop params vol lhm logsm_high rest (smf @ [smf_bin]))"

definition calc_partial_sumstats_from_params ::
  "MySMFModel \<Rightarrow> real list \<Rightarrow> (error + real list) \<times> MySMFModel" where
  "calc_partial_sumstats_from_params self params =
     (let bin_edges = smf_bin_edges (dynamic_data self);
          lhm = log_halo_masses (dynamic_data self);
          vol = volume (dynamic_data self)
      in case bin_edges of
           [] \<Rightarrow> (Inl IndexError, self)
         | logsm_low # rest \<Rightarrow> (smf_loop params vol lhm logsm_low rest [], self))"

definition calc_loss_from_sumstats ::
  "MySMFModel \<Rightarrow> real list \<Rightarrow> 'aux option \<Rightarrow> (error + real) \<times> MySMFModel" where
  "calc_loss_from_sumstats self sumstats sumstats_aux =
     (let target = map (log 10) (target_sumstats (dynamic_data self));
          sumstats' = map (log 10) sumstats
      in (case broadcast_sub sumstats' target of
            Inl e \<Rightarrow> Inl e
          | Inr d \<Rightarrow> Inr (jnp_mean (map (\<lambda>x. x ^ 2) d)),
          self))"

subsection \<open>The driver's data\<close>

definition data :: "comm \<Rightarrow> int \<Rightarrow> comm \<Rightarrow> error + dynamic_data" where
  "data world num_halos particle_comm =
     (case load_halo_masses_default world num_halos (Some particle_comm) of
        Inl e \<Rightarrow> Inl e
      | Inr masses \<Rightarrow>
          Inr \<lparr>log_halo_masses = map (log 10) masses,
               smf_bin_edges = linspace 9 10 11,
               volume = 10.0 * real_of_int num_halos,
               target_sumstats =
                 [2.30178721 / 10 ^ 2, 1.69728529 / 10 ^ 2, 1.16054425 / 10 ^ 2,
                  7.10532581 / 10 ^ 3, 3.77187086 / 10 ^ 3, 1.69136131 / 10 ^ 3,
                  6.28149020 / 10 ^ 4, 1.90466686 / 10 ^ 4, 4.66692982 / 10 ^ 5,
                  9.17260695 / 10 ^ 6]\<rparr>)"

subsection \<open>The float32 reading\<close>

text \<open>
  JAX computes in float32 unless 64-bit mode is switched on, which the script does not
  do. \<open>f32\<close> rounds a real number to the nearest float32, ties to even, with the
  subnormal numbers; overflow to infinity is not modelled. \<open>rne\<close> is the rounding of a
  real number to the nearest integer, ties to even.
\<close>

definition rne :: "real \<Rightarrow> int" where
  "rne y = (let f = \<lfloor>y\<rfloor>; d = y - of_int f
            in if d < 1 / 2 then f else if 1 / 2 < d then f + 1
               else if even f then f else f + 1)"

definition f32 :: "real \<Rightarrow> real" where
  "f32 x = (if x = 0 then 0
            else let e = max \<lfloor>log 2 \<bar>x\<bar>\<rfloor> (- 126) - 23
                 in of_int (rne (x / 2 powi e)) * 2 powi e)"










subsection \<open>The reduction over a group and the blocks of a split\<close>

text \<open>
  Modelled from the spec: the reduction over the members of a group is done by the
  \<open>multidiff\<close> base class, which is not part of the source here. The spec's data model
  says that the TotalStat of a group is the elementwise sum of the PartialStats of its
  members; \<open>elementwise_sum\<close> adds the vectors in the order of the members.
\<close>

definition elementwise_sum :: "real list list \<Rightarrow> real list" where
  "elementwise_sum vs = (case vs of [] \<Rightarrow> [] | v # ws \<Rightarrow> foldl (map2 (+)) v ws)"

text \<open>
  The model \<open>self\<close> with a shard placed in \<open>dynamic_data["log_halo_masses"]\<close>.
\<close>

definition with_shard :: "MySMFModel \<Rightarrow> real list \<Rightarrow> MySMFModel" where
  "with_shard self shard =
     self\<lparr>dynamic_data := (dynamic_data self)\<lparr>log_halo_masses := shard\<rparr>\<rparr>"

text \<open>
  The blocks as the sharding claim describes them: \<open>S\<close> contiguous blocks of an array of
  \<open>n\<close> elements, the first \<open>n mod S\<close> of them one element longer than the others.
\<close>

definition block_size :: "nat \<Rightarrow> nat \<Rightarrow> nat \<Rightarrow> nat" where
  "block_size n S r = n div S + (if r < n mod S then 1 else 0)"

definition block_start :: "nat \<Rightarrow> nat \<Rightarrow> nat \<Rightarrow> nat" where
  "block_start n S r = r * (n div S) + min r (n mod S)"

definition block :: "'a list \<Rightarrow> nat \<Rightarrow> nat \<Rightarrow> 'a list" where
  "block ary S r = take (block_size (length ary) S r) (drop (block_start (length ary) S r) ary)"

section \<open>The error function\<close>

subsection \<open>The series is an antiderivative of \<open>exp (- x\<^sup>2)\<close>\<close>

lemma exp_terms_abs_summable: "summable (\<lambda>n. \<bar>y::real\<bar> ^ n / fact n)"
  using summable_exp [of "\<bar>y\<bar>"] by (simp add: field_simps)

lemma erf_coeff_term_bound: "norm (erf_coeff n * y ^ n) \<le> \<bar>y\<bar> ^ n / fact n"
proof -
  have "norm (erf_coeff n * y ^ n) = (\<bar>y\<bar> ^ n / fact n) / (2 * real n + 1)"
    by (simp add: erf_coeff_def abs_mult power_abs abs_divide field_simps)
  also have "\<dots> \<le> (\<bar>y\<bar> ^ n / fact n) / 1"
    by (intro divide_left_mono) (simp_all)
  finally show ?thesis by simp
qed

lemma summable_erf_series: "summable (\<lambda>n. erf_coeff n * y ^ n)"
  by (rule summable_comparison_test [OF _ exp_terms_abs_summable [of y]])
     (use erf_coeff_term_bound in blast)

lemma weighted_term_bound: "norm (real n * erf_coeff n * y ^ n) \<le> \<bar>y\<bar> ^ n / fact n"
proof -
  have "norm (real n * erf_coeff n * y ^ n) = (\<bar>y\<bar> ^ n / fact n) * (real n / (2 * real n + 1))"
    by (simp add: erf_coeff_def abs_mult power_abs abs_divide field_simps)
  also have "\<dots> \<le> (\<bar>y\<bar> ^ n / fact n) * 1"
    by (intro mult_left_mono) (simp_all)
  finally show ?thesis by simp
qed

lemma summable_weighted: "summable (\<lambda>n. real n * erf_coeff n * y ^ n)"
  by (rule summable_comparison_test [OF _ exp_terms_abs_summable [of y]])
     (use weighted_term_bound in blast)

lemma DERIV_erf_series:
  "(erf_series has_real_derivative (\<Sum>n. diffs erf_coeff n * y ^ n)) (at y)"
  unfolding erf_series_def
  by (rule termdiffs_strong_converges_everywhere) (rule summable_erf_series)

lemma shifted_series: "y * (\<Sum>n. diffs erf_coeff n * y ^ n) = (\<Sum>n. real n * erf_coeff n * y ^ n)"
proof -
  let ?f = "\<lambda>n. real n * erf_coeff n * y ^ n"
  have "(\<Sum>n. ?f (Suc n)) = suminf ?f - ?f 0"
    by (rule suminf_split_head) (rule summable_weighted)
  moreover have "(\<Sum>n. ?f (Suc n)) = (\<Sum>n. y * (diffs erf_coeff n * y ^ n))"
    by (simp add: diffs_def mult_ac)
  moreover have "summable (\<lambda>n. diffs erf_coeff n * y ^ n)"
    by (rule termdiff_converges_all) (rule summable_erf_series)
  ultimately show ?thesis
    by (simp add: suminf_mult)
qed

lemma series_identity:
  "erf_series y + 2 * (y * (\<Sum>n. diffs erf_coeff n * y ^ n)) = exp (- y)"
proof -
  let ?a = "\<lambda>n. erf_coeff n * y ^ n"
  let ?f = "\<lambda>n. real n * erf_coeff n * y ^ n"
  have "erf_series y + 2 * (y * (\<Sum>n. diffs erf_coeff n * y ^ n)) = suminf ?a + 2 * suminf ?f"
    by (simp add: shifted_series erf_series_def)
  also have "\<dots> = suminf ?a + (\<Sum>n. 2 * ?f n)"
    by (simp add: suminf_mult [OF summable_weighted])
  also have "\<dots> = (\<Sum>n. ?a n + 2 * ?f n)"
    by (rule suminf_add) (simp_all add: summable_erf_series summable_weighted summable_mult)
  also have "(\<lambda>n. ?a n + 2 * ?f n) = (\<lambda>n. (- y) ^ n /\<^sub>R fact n)"
  proof
    fix n
    have "?a n + 2 * ?f n = (2 * real n + 1) * erf_coeff n * y ^ n"
      by (simp add: algebra_simps)
    also have "(2 * real n + 1) * erf_coeff n = (- 1) ^ n / fact n"
    proof -
      have "0 < 2 * real n + 1" by linarith
      then show ?thesis by (simp add: erf_coeff_def)
    qed
    also have "(- 1) ^ n / fact n * y ^ n = (- y) ^ n /\<^sub>R fact n"
      by (simp add: power_minus [of y] field_simps)
    finally show "?a n + 2 * ?f n = (- y) ^ n /\<^sub>R fact n" .
  qed
  finally show ?thesis by (simp add: exp_def)
qed

lemma DERIV_gauss_integral:
  "(gauss_integral has_real_derivative exp (- (x * x))) (at x)"
proof -
  let ?D = "\<Sum>n. diffs erf_coeff n * (x * x) ^ n"
  have "((\<lambda>x. x * erf_series (x * x)) has_real_derivative
          (1 * erf_series (x * x) + (?D * (1 * x + 1 * x)) * x)) (at x)"
    by (rule DERIV_mult DERIV_chain2 [OF DERIV_erf_series] DERIV_ident)+
  moreover have "1 * erf_series (x * x) + (?D * (1 * x + 1 * x)) * x = exp (- (x * x))"
    using series_identity [of "x * x"] by (simp add: algebra_simps)
  ultimately show ?thesis
    by (simp add: gauss_integral_def [abs_def])
qed

lemma gauss_integral_0: "gauss_integral 0 = 0"
  by (simp add: gauss_integral_def)


subsection \<open>Wallis integrals\<close>











subsection \<open>Monotonicity and bounds of \<open>erf\<close>\<close>








lemma erf_0: "erf 0 = 0"
  by (simp add: erf_def gauss_integral_0)


lemma DERIV_erf: "(erf has_real_derivative 2 / sqrt pi * exp (- (x * x))) (at x)"
  unfolding erf_def [abs_def] by (rule DERIV_cmult [OF DERIV_gauss_integral])



section \<open>The auxiliary argument of the loss\<close>

text \<open>
  C6. The loss does not depend on \<open>sumstats_aux\<close>: any two values of the argument,
  \<open>None\<close> included, give the same result and the same model, and a model built by the
  dataclass constructor declares \<open>loss_func_has_aux = False\<close>.
\<close>

theorem calc_loss_ignores_aux:
  "calc_loss_from_sumstats self sumstats aux1 = calc_loss_from_sumstats self sumstats aux2
   \<and> calc_loss_from_sumstats self sumstats aux1 = calc_loss_from_sumstats self sumstats None
   \<and> loss_func_has_aux (MySMFModel_init d) = False"
  by (simp add: calc_loss_from_sumstats_def MySMFModel_init_def)

section \<open>The cumulative distribution function\<close>





section \<open>The partial summary statistic in closed form\<close>

lemma sum_list_map2_minus:
  "sum_list (map2 (-) (map f xs) (map g xs)) = (\<Sum>x\<leftarrow>xs. f x - (g x :: real))"
  by (induction xs) simp_all

lemma calc_smf_bin_value:
  "ParamTuple_of params = Inr p \<Longrightarrow>
   calc_smf_bin params lo hi vol lhm = Inr (smf_bin_value p lo hi vol lhm)"
  by (simp add: calc_smf_bin_def smf_bin_value_def sum_list_map2_minus o_def)

lemma ParamTuple_of_short: "length params \<le> 2 \<Longrightarrow> \<exists>p. ParamTuple_of params = Inr p"
  by (cases params rule: ParamTuple_of.cases) simp_all

lemma smf_loop_value:
  assumes "ParamTuple_of params = Inr p"
  shows "smf_loop params vol lhm lo rest smf =
         Inr (smf @ map (\<lambda>(l, h). smf_bin_value p l h vol lhm) (zip (lo # rest) rest))"
  using assms
  by (induction rest arbitrary: lo smf) (simp_all add: calc_smf_bin_value)

lemma calc_partial_value:
  assumes "ParamTuple_of params = Inr p" "smf_bin_edges (dynamic_data self) = lo # rest"
  shows "fst (calc_partial_sumstats_from_params self params) =
         Inr (map (\<lambda>(l, h). smf_bin_value p l h (volume (dynamic_data self))
                     (log_halo_masses (dynamic_data self))) (zip (lo # rest) rest))"
  using assms by (simp add: calc_partial_sumstats_from_params_def smf_loop_value)

text \<open>The raising paths: no bin edge at all, and parameters that do not unpack.\<close>

lemma calc_partial_no_edges:
  "smf_bin_edges (dynamic_data self) = [] \<Longrightarrow>
   fst (calc_partial_sumstats_from_params self params) = Inl IndexError"
  by (simp add: calc_partial_sumstats_from_params_def)

lemma calc_partial_single_edge:
  "smf_bin_edges (dynamic_data self) = [lo] \<Longrightarrow>
   fst (calc_partial_sumstats_from_params self params) = Inr []"
  by (simp add: calc_partial_sumstats_from_params_def)

lemma ParamTuple_of_long: "2 < length params \<Longrightarrow> ParamTuple_of params = Inl TypeError"
  by (cases params rule: ParamTuple_of.cases) simp_all

lemma calc_partial_long_params:
  "2 < length params \<Longrightarrow> smf_bin_edges (dynamic_data self) = lo # hi # rest \<Longrightarrow>
   fst (calc_partial_sumstats_from_params self params) = Inl TypeError"
  by (simp add: calc_partial_sumstats_from_params_def calc_smf_bin_def ParamTuple_of_long)

section \<open>Nonnegative bins\<close>





section \<open>Additivity over the shards\<close>

lemma smf_bin_value_concat:
  "smf_bin_value p l h vol (concat shards) = (\<Sum>sh\<leftarrow>shards. smf_bin_value p l h vol sh)"
proof (induction shards)
  case Nil
  show ?case by (simp add: smf_bin_value_def)
next
  case (Cons sh shards)
  have "smf_bin_value p l h vol (sh @ concat shards)
        = smf_bin_value p l h vol sh + smf_bin_value p l h vol (concat shards)"
    by (simp add: smf_bin_value_def add_divide_distrib)
  then show ?case by (simp add: Cons.IH)
qed

lemma foldl_map2_add:
  "foldl (map2 (+)) (map G xs) (map (\<lambda>t. map (F t) xs) ts)
   = map (\<lambda>x. G x + (\<Sum>t\<leftarrow>ts. F t x :: real)) xs"
proof (induction ts arbitrary: G)
  case Nil
  show ?case by simp
next
  case (Cons t ts)
  have "map2 (+) (map G xs) (map (F t) xs) = map (\<lambda>x. G x + F t x) xs"
    by (induction xs) simp_all
  then show ?case
    by (simp add: Cons.IH add.assoc)
qed

lemma elementwise_sum_maps:
  "ts \<noteq> [] \<Longrightarrow>
   elementwise_sum (map (\<lambda>t. map (F t) xs) ts) = map (\<lambda>x. \<Sum>t\<leftarrow>ts. F t x) xs"
  by (cases ts) (simp_all add: elementwise_sum_def foldl_map2_add)

lemma with_shard_fields:
  "smf_bin_edges (dynamic_data (with_shard self sh)) = smf_bin_edges (dynamic_data self)"
  "volume (dynamic_data (with_shard self sh)) = volume (dynamic_data self)"
  "target_sumstats (dynamic_data (with_shard self sh)) = target_sumstats (dynamic_data self)"
  "log_halo_masses (dynamic_data (with_shard self sh)) = sh"
  by (simp_all add: with_shard_def)

text \<open>
  C1. The per-worker statistic is additive over data partitions. For parameters that
  unpack into a \<open>ParamTuple\<close>, any nonempty sequence of bin edges, any positive volume
  and any split of an array of log halo masses into one or more shards: every shard, placed in
  \<open>dynamic_data["log_halo_masses"]\<close>, yields a vector of partial sumstats, and the
  elementwise sum of these vectors is the vector computed in one call from the whole
  array \<open>concat shards\<close>, exactly, in real arithmetic.
\<close>

theorem partial_sumstats_additive:
  assumes "shards \<noteq> []" and "length params \<le> 2"
    and "smf_bin_edges (dynamic_data self) \<noteq> []"
    and "0 < volume (dynamic_data self)"
  shows "\<exists>ps total.
           map (\<lambda>shard. fst (calc_partial_sumstats_from_params (with_shard self shard) params))
             shards = map Inr ps
         \<and> fst (calc_partial_sumstats_from_params (with_shard self (concat shards)) params)
             = Inr total
         \<and> length total = length (smf_bin_edges (dynamic_data self)) - 1
         \<and> elementwise_sum ps = total"
proof -
  obtain p where p: "ParamTuple_of params = Inr p"
    using ParamTuple_of_short [OF assms(2)] by blast
  obtain lo rest where e: "smf_bin_edges (dynamic_data self) = lo # rest"
    using assms(3) by (cases "smf_bin_edges (dynamic_data self)") auto
  define F where "F = (\<lambda>sh (l, h). smf_bin_value p l h (volume (dynamic_data self)) sh)"
  have part: "fst (calc_partial_sumstats_from_params (with_shard self sh) params)
              = Inr (map (F sh) (zip (lo # rest) rest))" for sh
    using calc_partial_value [OF p, of "with_shard self sh" lo rest]
    by (simp add: with_shard_fields e F_def)
  let ?ps = "map (\<lambda>sh. map (F sh) (zip (lo # rest) rest)) shards"
  have "map (\<lambda>shard. fst (calc_partial_sumstats_from_params (with_shard self shard) params))
          shards = map Inr ?ps"
    by (simp add: part)
  moreover have "elementwise_sum ?ps = map (F (concat shards)) (zip (lo # rest) rest)"
    by (simp add: elementwise_sum_maps [OF assms(1)] F_def smf_bin_value_concat split_def)
  moreover have "length (map (F (concat shards)) (zip (lo # rest) rest))
                 = length (smf_bin_edges (dynamic_data self)) - 1"
    by (simp add: e)
  ultimately show ?thesis
    using part [of "concat shards"] by blast
qed

theorem partial_sumstats_additive_witness:
  "[[11, 12], [13 :: real]] \<noteq> [] \<and> length [- 2, 1 / 5 :: real] \<le> 2
   \<and> smf_bin_edges (dynamic_data (MySMFModel_init
         \<lparr>log_halo_masses = [], smf_bin_edges = [9, 19 / 2, 10], volume = 30,
            target_sumstats = [1, 1]\<rparr>)) \<noteq> []
   \<and> 0 < volume (dynamic_data (MySMFModel_init
         \<lparr>log_halo_masses = [], smf_bin_edges = [9, 19 / 2, 10], volume = 30,
            target_sumstats = [1, 1]\<rparr>))
   \<and> (\<exists>ps total.
         map (\<lambda>shard. fst (calc_partial_sumstats_from_params
               (with_shard (MySMFModel_init
                  \<lparr>log_halo_masses = [], smf_bin_edges = [9, 19 / 2, 10], volume = 30,
                     target_sumstats = [1, 1]\<rparr>) shard) [- 2, 1 / 5]))
             [[11, 12], [13]] = map Inr ps
         \<and> fst (calc_partial_sumstats_from_params
               (with_shard (MySMFModel_init
                  \<lparr>log_halo_masses = [], smf_bin_edges = [9, 19 / 2, 10], volume = 30,
                     target_sumstats = [1, 1]\<rparr>) (concat [[11, 12], [13]])) [- 2, 1 / 5])
             = Inr total
         \<and> length total = length (smf_bin_edges (dynamic_data (MySMFModel_init
                  \<lparr>log_halo_masses = [], smf_bin_edges = [9, 19 / 2, 10], volume = 30,
                     target_sumstats = [1, 1]\<rparr>))) - 1
         \<and> elementwise_sum ps = total)"
proof -
  have h1: "[[11, 12], [13 :: real]] \<noteq> []" by simp
  have h2: "length [- 2, 1 / 5 :: real] \<le> 2" by simp
  have h3: "smf_bin_edges (dynamic_data (MySMFModel_init
         \<lparr>log_halo_masses = [], smf_bin_edges = [9, 19 / 2, 10], volume = 30,
            target_sumstats = [1, 1]\<rparr>)) \<noteq> []"
    by (simp add: MySMFModel_init_def)
  have h4: "0 < volume (dynamic_data (MySMFModel_init
         \<lparr>log_halo_masses = [], smf_bin_edges = [9, 19 / 2, 10], volume = 30,
            target_sumstats = [1, 1]\<rparr>))"
    by (simp add: MySMFModel_init_def)
  show ?thesis
    by (intro conjI h1 h2 h3 h4 partial_sumstats_additive [OF h1 h2 h3 h4])
qed

section \<open>The model after a call\<close>

lemma calc_partial_state: "snd (calc_partial_sumstats_from_params self params) = self"
  by (simp add: calc_partial_sumstats_from_params_def split: list.split)

lemma calc_loss_state: "snd (calc_loss_from_sumstats self sumstats aux) = self"
  by (simp add: calc_loss_from_sumstats_def)

text \<open>
  C7. The local shard and the model data are read-only under evaluation: a call of
  \<open>calc_partial_sumstats_from_params\<close> or of \<open>calc_loss_from_sumstats\<close>, whether it
  returns or raises, leaves the model as it found it, and so every entry of
  \<open>dynamic_data\<close> (the shard of log halo masses, the bin edges, the volume and the
  target sumstats).
\<close>

theorem evaluation_leaves_model_unchanged:
  "snd (calc_partial_sumstats_from_params self params) = self
   \<and> snd (calc_loss_from_sumstats self sumstats aux) = self
   \<and> dynamic_data (snd (calc_partial_sumstats_from_params self params)) = dynamic_data self
   \<and> dynamic_data (snd (calc_loss_from_sumstats self sumstats aux)) = dynamic_data self"
  by (simp add: calc_partial_state calc_loss_state)

section \<open>The length of the partial summary statistic\<close>

lemma length_linspace: "length (linspace a b n) = n"
  by (simp add: linspace_def)

lemma array_split_length:
  "0 < S \<Longrightarrow> \<exists>parts. array_split ary S = Inr parts \<and> length parts = S"
  by (simp add: array_split_def Let_def)

lemma data_returns:
  assumes "0 \<le> num_halos" "0 < comm_size pc" "comm_rank pc < comm_size pc"
  shows "\<exists>d. data world num_halos pc = Inr d
            \<and> smf_bin_edges d = linspace 9 10 11 \<and> length (target_sumstats d) = 10
            \<and> volume d = 10 * real_of_int num_halos"
proof -
  obtain parts where "array_split (mhalo_of num_halos (- 2) (10 ^ 10) 0.95) (comm_size pc) = Inr parts"
    "length parts = comm_size pc"
    using array_split_length [OF assms(2)] by blast
  then show ?thesis
    using assms by (simp add: data_def load_halo_masses_default_def load_halo_masses_def)
qed

lemma calc_loss_returns:
  "length sumstats = length (target_sumstats (dynamic_data self)) \<Longrightarrow>
   fst (calc_loss_from_sumstats self sumstats aux)
   = Inr (jnp_mean (map (\<lambda>x. x ^ 2)
        (map2 (-) (map (log 10) sumstats) (map (log 10) (target_sumstats (dynamic_data self))))))"
  by (simp add: calc_loss_from_sumstats_def broadcast_sub_def)

text \<open>
  C5. The PartialStat has a fixed length. For a nonempty sequence of \<open>B\<close> bin edges and
  params that unpack, \<open>calc_partial_sumstats_from_params\<close> returns \<open>B - 1\<close> values, the
  \<open>i\<close>-th being the bin of the \<open>i\<close>-th pair of consecutive edges. In the driver's
  configuration, for a nonnegative number of halos and a rank of a nonempty
  communicator, the data is built, the edges \<open>linspace(9, 10, 11)\<close> are \<open>11\<close>, the
  partial sumstats are \<open>10\<close>, as many as the target sumstats, and the loss of such a
  vector is computed: the subtraction of the target is elementwise and does not raise.
\<close>

theorem partial_sumstats_length:
  "(smf_bin_edges (dynamic_data self) \<noteq> [] \<and> length params \<le> 2 \<longrightarrow>
      (\<exists>v. fst (calc_partial_sumstats_from_params self params) = Inr v
         \<and> length v = length (smf_bin_edges (dynamic_data self)) - 1
         \<and> (\<forall>i<length v.
               calc_smf_bin params (smf_bin_edges (dynamic_data self) ! i)
                 (smf_bin_edges (dynamic_data self) ! Suc i)
                 (volume (dynamic_data self)) (log_halo_masses (dynamic_data self))
               = Inr (v ! i))))
   \<and> (0 \<le> num_halos \<and> 0 < comm_size pc \<and> comm_rank pc < comm_size pc \<and> length params \<le> 2 \<longrightarrow>
      (\<exists>d v l. data world num_halos pc = Inr d
         \<and> length (smf_bin_edges d) = 11
         \<and> fst (calc_partial_sumstats_from_params (MySMFModel_init d) params) = Inr v
         \<and> length v = 10
         \<and> length (target_sumstats d) = 10
         \<and> fst (calc_loss_from_sumstats (MySMFModel_init d) v aux) = Inr l))"
proof (intro conjI impI)
  assume a: "smf_bin_edges (dynamic_data self) \<noteq> [] \<and> length params \<le> 2"
  obtain p where p: "ParamTuple_of params = Inr p"
    using ParamTuple_of_short a by blast
  obtain lo rest where e: "smf_bin_edges (dynamic_data self) = lo # rest"
    using a by (cases "smf_bin_edges (dynamic_data self)") auto
  let ?v = "map (\<lambda>(l, h). smf_bin_value p l h (volume (dynamic_data self))
                     (log_halo_masses (dynamic_data self))) (zip (lo # rest) rest)"
  have "fst (calc_partial_sumstats_from_params self params) = Inr ?v"
    by (rule calc_partial_value [OF p e])
  moreover have "length ?v = length (smf_bin_edges (dynamic_data self)) - 1"
    by (simp add: e)
  moreover have "\<forall>i<length ?v.
               calc_smf_bin params (smf_bin_edges (dynamic_data self) ! i)
                 (smf_bin_edges (dynamic_data self) ! Suc i)
                 (volume (dynamic_data self)) (log_halo_masses (dynamic_data self))
               = Inr (?v ! i)"
    by (simp add: e calc_smf_bin_value [OF p])
  ultimately show "\<exists>v. fst (calc_partial_sumstats_from_params self params) = Inr v
         \<and> length v = length (smf_bin_edges (dynamic_data self)) - 1
         \<and> (\<forall>i<length v.
               calc_smf_bin params (smf_bin_edges (dynamic_data self) ! i)
                 (smf_bin_edges (dynamic_data self) ! Suc i)
                 (volume (dynamic_data self)) (log_halo_masses (dynamic_data self))
               = Inr (v ! i))"
    by blast
next
  assume a: "0 \<le> num_halos \<and> 0 < comm_size pc \<and> comm_rank pc < comm_size pc \<and> length params \<le> 2"
  have a1: "0 \<le> num_halos" and a2: "0 < comm_size pc" and a3: "comm_rank pc < comm_size pc"
    using a by simp_all
  obtain d where d: "data world num_halos pc = Inr d" "smf_bin_edges d = linspace 9 10 11"
    "length (target_sumstats d) = 10"
    using data_returns [OF a1 a2 a3] by blast
  obtain p where p: "ParamTuple_of params = Inr p"
    using ParamTuple_of_short a by blast
  have len: "length (smf_bin_edges d) = 11"
    by (simp add: d(2) length_linspace)
  then obtain lo rest where e: "smf_bin_edges d = lo # rest"
    by (cases "smf_bin_edges d") auto
  let ?v = "map (\<lambda>(l, h). smf_bin_value p l h (volume d) (log_halo_masses d)) (zip (lo # rest) rest)"
  have v: "fst (calc_partial_sumstats_from_params (MySMFModel_init d) params) = Inr ?v"
    using calc_partial_value [OF p, of "MySMFModel_init d" lo rest]
    by (simp add: MySMFModel_init_def e)
  have lv: "length ?v = 10"
    using len by (simp add: e)
  have "\<exists>l. fst (calc_loss_from_sumstats (MySMFModel_init d) ?v aux) = Inr l"
    using calc_loss_returns [of ?v "MySMFModel_init d" aux] lv d(3)
    by (simp add: MySMFModel_init_def)
  with d(1) len v lv d(3)
  show "\<exists>d v l. data world num_halos pc = Inr d
         \<and> length (smf_bin_edges d) = 11
         \<and> fst (calc_partial_sumstats_from_params (MySMFModel_init d) params) = Inr v
         \<and> length v = 10
         \<and> length (target_sumstats d) = 10
         \<and> fst (calc_loss_from_sumstats (MySMFModel_init d) v aux) = Inr l"
    by blast
qed

theorem partial_sumstats_length_witness:
  "(smf_bin_edges (dynamic_data (MySMFModel_init
        \<lparr>log_halo_masses = [11, 12], smf_bin_edges = [9, 19 / 2, 10], volume = 20,
           target_sumstats = [1, 1]\<rparr>)) \<noteq> [] \<and> length [- 2, 1 / 5 :: real] \<le> 2)
   \<and> (\<exists>v. fst (calc_partial_sumstats_from_params (MySMFModel_init
        \<lparr>log_halo_masses = [11, 12], smf_bin_edges = [9, 19 / 2, 10], volume = 20,
           target_sumstats = [1, 1]\<rparr>) [- 2, 1 / 5]) = Inr v \<and> length v = 2)
   \<and> ((0::int) \<le> 4 \<and> 0 < comm_size \<lparr>comm_size = 2, comm_rank = 1\<rparr>
        \<and> comm_rank \<lparr>comm_size = 2, comm_rank = 1\<rparr> < comm_size \<lparr>comm_size = 2, comm_rank = 1\<rparr>)
   \<and> (\<exists>d v l. data \<lparr>comm_size = 6, comm_rank = 3\<rparr> 4 \<lparr>comm_size = 2, comm_rank = 1\<rparr> = Inr d
         \<and> length (smf_bin_edges d) = 11
         \<and> fst (calc_partial_sumstats_from_params (MySMFModel_init d) [- 2, 1 / 5]) = Inr v
         \<and> length v = 10
         \<and> length (target_sumstats d) = 10
         \<and> fst (calc_loss_from_sumstats (MySMFModel_init d) v (None :: unit option)) = Inr l)"
proof -
  let ?m = "MySMFModel_init
        \<lparr>log_halo_masses = [11, 12], smf_bin_edges = [9, 19 / 2, 10], volume = 20,
           target_sumstats = [1, 1]\<rparr>"
  let ?pc = "\<lparr>comm_size = 2, comm_rank = 1\<rparr>"
  have h1: "smf_bin_edges (dynamic_data ?m) \<noteq> [] \<and> length [- 2, 1 / 5 :: real] \<le> 2"
    by (simp add: MySMFModel_init_def)
  have h2: "(0::int) \<le> 4 \<and> 0 < comm_size ?pc \<and> comm_rank ?pc < comm_size ?pc
            \<and> length [- 2, 1 / 5 :: real] \<le> 2"
    by simp
  have l: "length (smf_bin_edges (dynamic_data ?m)) - 1 = 2"
    by (simp add: MySMFModel_init_def)
  note t = partial_sumstats_length [of ?m "[- 2, 1 / 5]" 4 ?pc "\<lparr>comm_size = 6, comm_rank = 3\<rparr>"
      "None :: unit option"]
  have c1: "\<exists>v. fst (calc_partial_sumstats_from_params ?m [- 2, 1 / 5]) = Inr v \<and> length v = 2"
    using t h1 unfolding l by blast
  have c2: "\<exists>d v l. data \<lparr>comm_size = 6, comm_rank = 3\<rparr> 4 ?pc = Inr d
         \<and> length (smf_bin_edges d) = 11
         \<and> fst (calc_partial_sumstats_from_params (MySMFModel_init d) [- 2, 1 / 5]) = Inr v
         \<and> length v = 10
         \<and> length (target_sumstats d) = 10
         \<and> fst (calc_loss_from_sumstats (MySMFModel_init d) v (None :: unit option)) = Inr l"
    using t h2 by blast
  show ?thesis
    using h1 h2 c1 c2 by blast
qed

section \<open>The loss\<close>

lemma jnp_mean_squares:
  assumes "length s = length t"
  shows "jnp_mean (map (\<lambda>x. x ^ 2) (map2 (-) (map (log 10) s) (map (log 10) t)))
         = 1 / real (length s) * (\<Sum>k<length s. (log 10 (s ! k) - log 10 (t ! k)) ^ 2)"
proof -
  let ?d = "map (\<lambda>x. x ^ 2) (map2 (-) (map (log 10) s) (map (log 10) t))"
  have len: "length ?d = length s"
    using assms by simp
  have "sum_list ?d = (\<Sum>k = 0..<length ?d. ?d ! k)"
    by (rule sum_list_sum_nth)
  also have "\<dots> = (\<Sum>k = 0..<length s. (log 10 (s ! k) - log 10 (t ! k)) ^ 2)"
    unfolding len using assms by (intro sum.cong refl) simp
  finally have sum: "sum_list ?d = (\<Sum>k<length s. (log 10 (s ! k) - log 10 (t ! k)) ^ 2)"
    by (simp only: lessThan_atLeast0)
  have "jnp_mean ?d = sum_list ?d / real (length ?d)"
    by (simp only: jnp_mean_def)
  also have "\<dots> = (\<Sum>k<length s. (log 10 (s ! k) - log 10 (t ! k)) ^ 2) / real (length s)"
    by (simp only: sum len)
  finally show ?thesis
    by simp
qed

text \<open>
  C2. The loss is a mean squared error in log space. For a nonempty vector of strictly
  positive sumstats, as long as the strictly positive target sumstats,
  \<open>calc_loss_from_sumstats\<close> returns
  \<open>1 / K * (\<Sum>k<K. (log10 (sumstats[k]) - log10 (target_sumstats[k]))\<^sup>2)\<close>; the result is
  nonnegative, and it is \<open>0\<close> when the sumstats are the target sumstats. (On the empty
  vector \<open>jnp.mean\<close> is a division of zero by zero.)
\<close>

theorem calc_loss_is_log_mse:
  assumes "sumstats \<noteq> []"
    and "length sumstats = length (target_sumstats (dynamic_data self))"
    and "\<forall>x\<in>set sumstats. 0 < x"
    and "\<forall>x\<in>set (target_sumstats (dynamic_data self)). 0 < x"
  shows "\<exists>loss. fst (calc_loss_from_sumstats self sumstats aux) = Inr loss
           \<and> loss = 1 / real (length sumstats)
                  * (\<Sum>k<length sumstats.
                       (log 10 (sumstats ! k)
                        - log 10 (target_sumstats (dynamic_data self) ! k)) ^ 2)
           \<and> 0 \<le> loss
           \<and> (sumstats = target_sumstats (dynamic_data self) \<longrightarrow> loss = 0)"
proof -
  let ?loss = "1 / real (length sumstats)
                  * (\<Sum>k<length sumstats.
                       (log 10 (sumstats ! k)
                        - log 10 (target_sumstats (dynamic_data self) ! k)) ^ 2)"
  have "fst (calc_loss_from_sumstats self sumstats aux) = Inr ?loss"
    by (simp only: calc_loss_returns [OF assms(2)] jnp_mean_squares [OF assms(2)])
  moreover have "0 \<le> ?loss"
    by (intro mult_nonneg_nonneg sum_nonneg) simp_all
  moreover have "sumstats = target_sumstats (dynamic_data self) \<longrightarrow> ?loss = 0"
    by auto
  ultimately show ?thesis by blast
qed

theorem calc_loss_is_log_mse_witness:
  "[2, 3 :: real] \<noteq> []
   \<and> length [2, 3 :: real] = length (target_sumstats (dynamic_data (MySMFModel_init
        \<lparr>log_halo_masses = [11], smf_bin_edges = [9, 10, 11], volume = 10,
           target_sumstats = [2, 3]\<rparr>)))
   \<and> (0::real) < 2 \<and> (0::real) < 3
   \<and> [2, 3] = target_sumstats (dynamic_data (MySMFModel_init
        \<lparr>log_halo_masses = [11], smf_bin_edges = [9, 10, 11], volume = 10,
           target_sumstats = [2, 3]\<rparr>))
   \<and> fst (calc_loss_from_sumstats (MySMFModel_init
        \<lparr>log_halo_masses = [11], smf_bin_edges = [9, 10, 11], volume = 10,
           target_sumstats = [2, 3]\<rparr>) [2, 3] (None :: unit option)) = Inr 0"
proof -
  let ?m = "MySMFModel_init
        \<lparr>log_halo_masses = [11], smf_bin_edges = [9, 10, 11], volume = 10,
           target_sumstats = [2, 3]\<rparr>"
  have h1: "[2, 3 :: real] \<noteq> []" by simp
  have h2: "length [2, 3 :: real] = length (target_sumstats (dynamic_data ?m))"
    by (simp add: MySMFModel_init_def)
  have h3: "\<forall>x\<in>set [2, 3 :: real]. 0 < x" by simp
  have h4: "\<forall>x\<in>set (target_sumstats (dynamic_data ?m)). 0 < x"
    by (simp add: MySMFModel_init_def)
  have h5: "[2, 3] = target_sumstats (dynamic_data ?m)"
    by (simp add: MySMFModel_init_def)
  from calc_loss_is_log_mse [OF h1 h2 h3 h4, of "None :: unit option"]
  obtain loss where "fst (calc_loss_from_sumstats ?m [2, 3] (None :: unit option)) = Inr loss"
    and "[2, 3] = target_sumstats (dynamic_data ?m) \<longrightarrow> loss = 0"
    by blast
  with h5 have "fst (calc_loss_from_sumstats ?m [2, 3] (None :: unit option)) = Inr 0"
    by simp
  with h1 h2 h5 show ?thesis by simp
qed

section \<open>The blocks of \<open>array_split\<close>\<close>

lemma cumsum_from_nth:
  "i < length xs \<Longrightarrow> cumsum_from a xs ! i = a + sum_list (take (Suc i) xs)"
proof (induction xs arbitrary: a i)
  case Nil
  then show ?case by simp
next
  case (Cons x xs)
  show ?case
  proof (cases i)
    case 0
    then show ?thesis by simp
  next
    case (Suc j)
    with Cons.prems have "j < length xs" by simp
    from Cons.IH [OF this, of "a + x"] Suc show ?thesis by simp
  qed
qed

lemma sum_take_sizes:
  assumes "e \<le> S" "i \<le> S"
  shows "sum_list (take i (replicate e (Suc q) @ replicate (S - e) q)) = i * q + min i e"
proof -
  have "sum_list (take i (replicate e (Suc q) @ replicate (S - e) q))
        = min i e * Suc q + min (i - e) (S - e) * q"
    by (simp add: sum_list_replicate min.commute)
  also have "min (i - e) (S - e) = i - e"
    using assms by simp
  also have "min i e * Suc q + (i - e) * q = (min i e + (i - e)) * q + min i e"
    by (simp add: algebra_simps)
  also have "min i e + (i - e) = i"
    by (simp add: min_def)
  finally show ?thesis .
qed

lemma div_points_nth:
  assumes "0 < S" "i \<le> S"
  shows "cumsum (section_sizes n S) ! i = block_start n S i"
proof -
  have e: "n mod S \<le> S" using assms(1) by (simp add: less_imp_le)
  let ?sizes = "replicate (n mod S) (Suc (n div S)) @ replicate (S - n mod S) (n div S)"
  have sizes: "section_sizes n S = 0 # ?sizes"
    by (simp add: section_sizes_def)
  have "i < length (section_sizes n S)"
    using assms e by (simp add: sizes)
  then have "cumsum (section_sizes n S) ! i = 0 + sum_list (take (Suc i) (section_sizes n S))"
    unfolding cumsum_def by (rule cumsum_from_nth)
  also have "\<dots> = sum_list (take i ?sizes)"
    by (simp only: sizes take_Suc_Cons sum_list.Cons add_0)
  finally have "cumsum (section_sizes n S) ! i = sum_list (take i ?sizes)" .
  also have "\<dots> = i * (n div S) + min i (n mod S)"
    by (rule sum_take_sizes [OF e assms(2)])
  finally show ?thesis by (simp add: block_start_def)
qed

lemma block_start_Suc: "block_start n S (Suc r) = block_start n S r + block_size n S r"
  by (simp add: block_start_def block_size_def min_def)

lemma array_split_blocks:
  assumes "0 < S"
  shows "array_split ary S = Inr (map (block ary S) [0..<S])"
proof -
  have "slice ary (cumsum (section_sizes (length ary) S) ! r)
          (cumsum (section_sizes (length ary) S) ! (r + 1)) = block ary S r" if "r < S" for r
    using that assms
    by (simp add: div_points_nth slice_def block_def block_start_Suc)
  then show ?thesis
    using assms by (simp add: array_split_def Let_def)
qed

lemma concat_blocks_take:
  "k \<le> S \<Longrightarrow> concat (map (block ary S) [0..<k]) = take (block_start (length ary) S k) ary"
proof (induction k)
  case 0
  show ?case by (simp add: block_start_def)
next
  case (Suc k)
  then have "concat (map (block ary S) [0..<Suc k])
             = take (block_start (length ary) S k) ary @ block ary S k"
    by simp
  also have "\<dots> = take (block_start (length ary) S (Suc k)) ary"
    by (simp add: block_def block_start_Suc take_add)
  finally show ?case .
qed

lemma block_start_total:
  assumes "0 < S"
  shows "block_start n S S = n"
proof -
  have "n mod S < S" using assms by simp
  then have "min S (n mod S) = n mod S" by simp
  then show ?thesis by (simp add: block_start_def)
qed

lemma concat_blocks: "0 < S \<Longrightarrow> concat (map (block ary S) [0..<S]) = ary"
  by (simp add: concat_blocks_take block_start_total)

lemma block_start_mono: "r \<le> r' \<Longrightarrow> block_start n S r \<le> block_start n S r'"
  by (simp add: block_start_def add_mono min.coboundedI1 min.coboundedI2 min_le_iff_disj)

lemma length_block:
  assumes "0 < S" "r < S"
  shows "length (block ary S r) = block_size (length ary) S r"
proof -
  have "block_start (length ary) S (Suc r) \<le> block_start (length ary) S S"
    using assms by (intro block_start_mono) simp
  then have "block_start (length ary) S r + block_size (length ary) S r \<le> length ary"
    using assms by (simp add: block_start_Suc block_start_total)
  then show ?thesis
    by (simp add: block_def)
qed

lemma index_in_some_block:
  "i < block_start n S k \<Longrightarrow> \<exists>r<k. block_start n S r \<le> i \<and> i < block_start n S (Suc r)"
proof (induction k)
  case 0
  then show ?case by (simp add: block_start_def)
next
  case (Suc k)
  show ?case
  proof (cases "i < block_start n S k")
    case True
    from Suc.IH [OF this] show ?thesis using less_Suc_eq by blast
  next
    case False
    with Suc.prems show ?thesis by auto
  qed
qed

lemma index_in_one_block:
  assumes "0 < S" "i < n"
  shows "\<exists>!r. r < S \<and> block_start n S r \<le> i \<and> i < block_start n S r + block_size n S r"
proof -
  have "i < block_start n S S" using assms by (simp add: block_start_total)
  from index_in_some_block [OF this]
  obtain r where r: "r < S" "block_start n S r \<le> i" "i < block_start n S (Suc r)" by blast
  show ?thesis
  proof (rule ex1I [of _ r])
    show "r < S \<and> block_start n S r \<le> i \<and> i < block_start n S r + block_size n S r"
      using r by (simp add: block_start_Suc)
  next
    fix r' assume r': "r' < S \<and> block_start n S r' \<le> i \<and> i < block_start n S r' + block_size n S r'"
    show "r' = r"
    proof (rule ccontr)
      assume "r' \<noteq> r"
      then consider "Suc r' \<le> r" | "Suc r \<le> r'" by linarith
      then show False
      proof cases
        case 1
        from block_start_mono [OF this, of n S] r' r show False
          by (simp add: block_start_Suc)
      next
        case 2
        from block_start_mono [OF this, of n S] r' r show False
          by (simp add: block_start_Suc)
      qed
    qed
  qed
qed

section \<open>Sharding of the halo masses\<close>

lemma length_mhalo_of: "length (mhalo_of num_halos slope mmin qmax) = nat num_halos"
  by (simp add: mhalo_of_def length_linspace)

lemma load_halo_masses_block:
  assumes "0 \<le> num_halos" "0 < S" "r < S" "slope + 1 \<noteq> 0"
  shows "load_halo_masses world num_halos slope mmin qmax (Some \<lparr>comm_size = S, comm_rank = r\<rparr>)
         = Inr (block (mhalo_of num_halos slope mmin qmax) S r)"
  using assms by (simp add: load_halo_masses_def array_split_blocks)

text \<open>The raising paths of \<open>load_halo_masses\<close>.\<close>

lemma load_halo_masses_raises:
  "num_halos < 0 \<Longrightarrow>
     load_halo_masses world num_halos slope mmin qmax comm_arg = Inl ValueError"
  "0 \<le> num_halos \<Longrightarrow>
     load_halo_masses world num_halos (- 1) mmin qmax comm_arg = Inl ZeroDivisionError"
  "0 \<le> num_halos \<Longrightarrow> slope + 1 \<noteq> 0 \<Longrightarrow>
     load_halo_masses world num_halos slope mmin qmax (Some \<lparr>comm_size = 0, comm_rank = r\<rparr>)
     = Inl ValueError"
  by (simp_all add: load_halo_masses_def array_split_def)

text \<open>
  C4. Data sharding is an exhaustive, disjoint, contiguous partition. For a nonnegative
  number of halos, a communicator of size \<open>S \<ge> 1\<close> and a slope other than \<open>-1\<close>, the calls
  of \<open>load_halo_masses\<close> for the ranks \<open>0, \<dots>, S - 1\<close> return \<open>S\<close> shards; the shard of rank
  \<open>r\<close> is the \<open>r\<close>-th contiguous block of the mass array, of \<open>n div S\<close> elements and one
  more for the first \<open>n mod S\<close> ranks, so that two shards differ in length by at most one;
  the shards concatenated in rank order are the mass array; and every index of the mass
  array lies in the block of exactly one rank.
\<close>

theorem load_halo_masses_shards:
  assumes "0 \<le> num_halos" and "0 < S" and "slope + 1 \<noteq> 0"
  shows "\<exists>shards. length shards = S
       \<and> (\<forall>r<S. load_halo_masses world num_halos slope mmin qmax
                   (Some \<lparr>comm_size = S, comm_rank = r\<rparr>) = Inr (shards ! r))
       \<and> (\<forall>r<S. shards ! r = block (mhalo_of num_halos slope mmin qmax) S r)
       \<and> (\<forall>r<S. length (shards ! r)
                   = nat num_halos div S + (if r < nat num_halos mod S then 1 else 0))
       \<and> (\<forall>r<S. \<forall>r'<S. length (shards ! r) \<le> length (shards ! r') + 1)
       \<and> concat shards = mhalo_of num_halos slope mmin qmax
       \<and> length (mhalo_of num_halos slope mmin qmax) = nat num_halos
       \<and> (\<forall>i<nat num_halos. \<exists>!r. r < S \<and> block_start (nat num_halos) S r \<le> i
                                  \<and> i < block_start (nat num_halos) S r + length (shards ! r))"
proof -
  let ?ary = "mhalo_of num_halos slope mmin qmax"
  let ?n = "nat num_halos"
  let ?shards = "map (block ?ary S) [0..<S]"
  have n: "length ?ary = ?n" by (rule length_mhalo_of)
  have nth: "?shards ! r = block ?ary S r" if "r < S" for r
    using that by simp
  have len: "length (?shards ! r) = block_size ?n S r" if "r < S" for r
    using that length_block [OF assms(2) that, of ?ary] by (simp add: n)
  have 1: "length ?shards = S" by simp
  have 2: "\<forall>r<S. load_halo_masses world num_halos slope mmin qmax
                   (Some \<lparr>comm_size = S, comm_rank = r\<rparr>) = Inr (?shards ! r)"
    using assms by (simp add: load_halo_masses_block)
  have 3: "\<forall>r<S. ?shards ! r = block ?ary S r"
    by simp
  have 4: "\<forall>r<S. length (?shards ! r) = ?n div S + (if r < ?n mod S then 1 else 0)"
    using len by (simp add: block_size_def)
  have 5: "\<forall>r<S. \<forall>r'<S. length (?shards ! r) \<le> length (?shards ! r') + 1"
    using len by (simp add: block_size_def)
  have 6: "concat ?shards = ?ary"
    by (rule concat_blocks [OF assms(2)])
  have 7: "\<forall>i<?n. \<exists>!r. r < S \<and> block_start ?n S r \<le> i
                          \<and> i < block_start ?n S r + length (?shards ! r)"
  proof (intro allI impI)
    fix i assume "i < ?n"
    from index_in_one_block [OF assms(2) this]
    obtain r where r: "r < S" "block_start ?n S r \<le> i" "i < block_start ?n S r + block_size ?n S r"
      and u: "\<And>r'. r' < S \<and> block_start ?n S r' \<le> i
                  \<and> i < block_start ?n S r' + block_size ?n S r' \<Longrightarrow> r' = r"
      by (auto elim!: ex1E)
    show "\<exists>!r. r < S \<and> block_start ?n S r \<le> i \<and> i < block_start ?n S r + length (?shards ! r)"
    proof (rule ex1I [of _ r])
      show "r < S \<and> block_start ?n S r \<le> i \<and> i < block_start ?n S r + length (?shards ! r)"
        using r len by simp
    next
      fix r' assume a: "r' < S \<and> block_start ?n S r' \<le> i
                        \<and> i < block_start ?n S r' + length (?shards ! r')"
      then have "r' < S" by simp
      then have e: "length (?shards ! r') = block_size ?n S r'" by (rule len)
      from a show "r' = r" unfolding e by (rule u)
    qed
  qed
  from 1 2 3 4 5 6 n 7 show ?thesis by blast
qed

theorem load_halo_masses_shards_witness:
  "(0::int) \<le> 5 \<and> (0::nat) < 2 \<and> (- 2 :: real) + 1 \<noteq> 0
   \<and> (\<exists>shards. length shards = 2
       \<and> load_halo_masses \<lparr>comm_size = 6, comm_rank = 3\<rparr> 5 (- 2) (10 ^ 10) (19 / 20)
             (Some \<lparr>comm_size = 2, comm_rank = 0\<rparr>) = Inr (shards ! 0)
       \<and> load_halo_masses \<lparr>comm_size = 6, comm_rank = 3\<rparr> 5 (- 2) (10 ^ 10) (19 / 20)
             (Some \<lparr>comm_size = 2, comm_rank = 1\<rparr>) = Inr (shards ! 1)
       \<and> length (shards ! 0) = 3 \<and> length (shards ! 1) = 2
       \<and> concat shards = mhalo_of 5 (- 2) (10 ^ 10) (19 / 20)
       \<and> length (mhalo_of 5 (- 2) (10 ^ 10) (19 / 20)) = 5)"
proof -
  have h1: "(0::int) \<le> 5" and h2: "(0::nat) < 2" and h3: "(- 2 :: real) + 1 \<noteq> 0"
    by simp_all
  from load_halo_masses_shards [OF h1 h2 h3, of "\<lparr>comm_size = 6, comm_rank = 3\<rparr>" "10 ^ 10" "19 / 20"]
  obtain shards where s: "length shards = 2"
    "\<forall>r<2. load_halo_masses \<lparr>comm_size = 6, comm_rank = 3\<rparr> 5 (- 2) (10 ^ 10) (19 / 20)
             (Some \<lparr>comm_size = 2, comm_rank = r\<rparr>) = Inr (shards ! r)"
    "\<forall>r<2. length (shards ! r) = nat 5 div 2 + (if r < nat 5 mod 2 then 1 else 0)"
    "concat shards = mhalo_of 5 (- 2) (10 ^ 10) (19 / 20)"
    "length (mhalo_of 5 (- 2) (10 ^ 10) (19 / 20)) = nat 5"
    by blast
  have "length (shards ! 0) = 3" "length (shards ! 1) = 2"
    using s(3) by simp_all
  with s(1,2,4,5) h1 h2 h3 show ?thesis
    by (intro conjI exI [of _ shards]) simp_all
qed

section \<open>Order of the halo masses across ranks\<close>

lemma linspace_0_nth:
  "i < m \<Longrightarrow> linspace 0 qmax m ! i = real i * (qmax / real (m - 1))"
  by (auto simp add: linspace_def)

lemma linspace_0_mono:
  assumes "0 \<le> qmax" "i \<le> j" "j < m"
  shows "linspace 0 qmax m ! i \<le> linspace 0 qmax m ! j"
proof -
  have "real i * (qmax / real (m - 1)) \<le> real j * (qmax / real (m - 1))"
    using assms by (intro mult_right_mono) simp_all
  then show ?thesis
    using assms by (simp add: linspace_0_nth)
qed

lemma linspace_0_upper:
  assumes "0 \<le> qmax" "i < m"
  shows "linspace 0 qmax m ! i \<le> qmax"
proof (cases "m = 1")
  case True
  then show ?thesis using assms by (simp add: linspace_def)
next
  case False
  then have m: "0 < real (m - 1)" and i: "real i \<le> real (m - 1)"
    using assms(2) by simp_all
  have "real i * (qmax / real (m - 1)) = (real i / real (m - 1)) * qmax"
    by simp
  also have "\<dots> \<le> 1 * qmax"
    using m i assms(1) by (intro mult_right_mono) simp_all
  finally show ?thesis
    using assms(2) by (simp add: linspace_0_nth)
qed

lemma mass_mono:
  fixes mmin q q' :: real
  assumes "0 \<le> mmin" "q \<le> q'" "q' < 1"
  shows "mmin * (1 - q) powr (1 / (- 2 + 1)) \<le> mmin * (1 - q') powr (1 / (- 2 + 1))"
proof -
  have e: "1 / (- 2 + 1) = (- 1 :: real)" by simp
  have p: "x powr (- 1) = 1 / x" if "0 < x" for x :: real
    using that by (simp add: powr_minus inverse_eq_divide)
  have "0 < 1 - q'" "1 - q' \<le> 1 - q"
    using assms by simp_all
  then have "1 / (1 - q) \<le> 1 / (1 - q')"
    by (simp add: frac_le)
  then have "mmin * (1 / (1 - q)) \<le> mmin * (1 / (1 - q'))"
    using assms(1) by (rule mult_left_mono)
  then show ?thesis
    using assms by (simp only: e p)
qed

lemma sorted_mhalo_of:
  assumes "0 \<le> qmax" "qmax < 1" "0 \<le> mmin"
  shows "sorted (mhalo_of num_halos (- 2) mmin qmax)"
  unfolding sorted_iff_nth_mono
proof (intro allI impI)
  fix i j assume ij: "i \<le> j" and j: "j < length (mhalo_of num_halos (- 2) mmin qmax)"
  then have jn: "j < nat num_halos" and "i < nat num_halos"
    by (simp_all add: length_mhalo_of)
  have "linspace 0 qmax (nat num_halos) ! j < 1"
    using linspace_0_upper [OF assms(1) jn] assms(2) by simp
  with linspace_0_mono [OF assms(1) ij jn]
  have "mmin * (1 - linspace 0 qmax (nat num_halos) ! i) powr (1 / (- 2 + 1))
        \<le> mmin * (1 - linspace 0 qmax (nat num_halos) ! j) powr (1 / (- 2 + 1))"
    by (intro mass_mono assms(3))
  then show "mhalo_of num_halos (- 2) mmin qmax ! i \<le> mhalo_of num_halos (- 2) mmin qmax ! j"
    using jn \<open>i < nat num_halos\<close> by (simp add: mhalo_of_def length_linspace)
qed

lemma sorted_concat_parts:
  fixes xss :: "real list list"
  assumes "sorted (concat xss)"
  shows "(\<forall>r<length xss. sorted (xss ! r))
       \<and> (\<forall>r r'. r < r' \<and> r' < length xss \<longrightarrow> (\<forall>x\<in>set (xss ! r). \<forall>y\<in>set (xss ! r'). x \<le> y))"
  using assms
proof (induction xss)
  case Nil
  show ?case by simp
next
  case (Cons xs xss)
  from Cons.prems have s: "sorted xs" "sorted (concat xss)"
    and le: "\<forall>x\<in>set xs. \<forall>y\<in>set (concat xss). x \<le> y"
    by (simp_all add: sorted_append)
  note IH = Cons.IH [OF s(2)]
  have a: "\<forall>r<length (xs # xss). sorted ((xs # xss) ! r)"
    using s(1) IH by (auto simp add: nth_Cons split: nat.split)
  have b: "\<forall>x\<in>set ((xs # xss) ! r). \<forall>y\<in>set ((xs # xss) ! r'). x \<le> y"
    if "r < r'" "r' < length (xs # xss)" for r r'
  proof (cases r)
    case 0
    from that obtain k where k: "r' = Suc k" "k < length xss"
      by (cases r') auto
    then have "xss ! k \<in> set xss" by simp
    then have "set (xss ! k) \<subseteq> set (concat xss)" by auto
    with le show ?thesis by (auto simp add: 0 k)
  next
    case (Suc m)
    from that Suc obtain k where k: "r' = Suc k" "k < length xss" "m < k"
      by (cases r') auto
    with IH show ?thesis by (simp add: Suc)
  qed
  from a b show ?case by blast
qed

lemma sorted_hd_Min: "sorted xs \<Longrightarrow> xs \<noteq> [] \<Longrightarrow> hd xs = Min (set (xs :: real list))"
  by (cases xs) (auto intro!: Min_eqI [symmetric])

lemma sorted_last_Max: "sorted xs \<Longrightarrow> xs \<noteq> [] \<Longrightarrow> last xs = Max (set (xs :: real list))"
proof -
  assume s: "sorted xs" and n: "xs \<noteq> []"
  have "\<forall>y\<in>set xs. y \<le> last xs"
  proof
    fix y assume "y \<in> set xs"
    then obtain i where i: "i < length xs" "xs ! i = y" by (auto simp add: in_set_conv_nth)
    have "xs ! i \<le> xs ! (length xs - 1)"
      using s i by (intro sorted_nth_mono) auto
    then show "y \<le> last xs" using i n by (simp add: last_conv_nth)
  qed
  then show ?thesis
    using n by (intro Max_eqI [symmetric]) auto
qed

lemma block_size_pos: "0 < S \<Longrightarrow> S \<le> n \<Longrightarrow> 0 < block_size n S r"
  by (simp add: block_size_def div_greater_zero_iff)

lemma hd_first_block:
  assumes "0 < S" "S \<le> length ary"
  shows "hd (block ary S 0) = hd ary"
  using block_size_pos [OF assms, of 0] by (simp add: block_def block_start_def hd_take)

lemma last_last_block:
  assumes "0 < S" "S \<le> length ary"
  shows "last (block ary S (S - 1)) = last ary"
proof -
  have st: "block_start (length ary) S (S - 1) + block_size (length ary) S (S - 1) = length ary"
    using block_start_Suc [of "length ary" S "S - 1"] assms(1)
    by (simp add: block_start_total)
  have pos: "0 < block_size (length ary) S (S - 1)"
    by (rule block_size_pos [OF assms])
  have "block ary S (S - 1) = drop (block_start (length ary) S (S - 1)) ary"
    using st by (simp add: block_def)
  moreover have "block_start (length ary) S (S - 1) < length ary"
    using st pos by linarith
  ultimately show ?thesis by (simp add: last_drop)
qed

text \<open>
  C10. With the default slope \<open>-2\<close>, a nonnegative \<open>mmin\<close> (the default is \<open>10\<^sup>1\<^sup>0\<close>) and
  \<open>0 \<le> qmax < 1\<close>, the halo masses are sorted in non-decreasing order across the ranks:
  the shard of every rank is sorted, every element of the shard of a rank is at most
  every element of the shard of a later rank, and, when no shard is empty
  (\<open>comm.size \<le> num_halos\<close>), the first element of the shard of rank \<open>0\<close> is the least mass
  and the last element of the shard of the last rank is the greatest.
\<close>

theorem halo_masses_sorted_across_ranks:
  assumes "0 \<le> qmax" and "qmax < 1" and "0 \<le> mmin" and "0 \<le> num_halos" and "0 < S"
  shows "\<exists>shards. length shards = S
       \<and> (\<forall>r<S. load_halo_masses world num_halos (- 2) mmin qmax
                   (Some \<lparr>comm_size = S, comm_rank = r\<rparr>) = Inr (shards ! r))
       \<and> concat shards = mhalo_of num_halos (- 2) mmin qmax
       \<and> sorted (concat shards)
       \<and> (\<forall>r<S. sorted (shards ! r))
       \<and> (\<forall>r r'. r < r' \<and> r' < S \<longrightarrow>
             (\<forall>x\<in>set (shards ! r). \<forall>y\<in>set (shards ! r'). x \<le> y))
       \<and> (S \<le> nat num_halos \<longrightarrow>
             (\<forall>r<S. shards ! r \<noteq> [])
             \<and> hd (shards ! 0) = Min (set (concat shards))
             \<and> last (shards ! (S - 1)) = Max (set (concat shards)))"
proof -
  let ?ary = "mhalo_of num_halos (- 2) mmin qmax"
  let ?shards = "map (block ?ary S) [0..<S]"
  have n: "length ?ary = nat num_halos" by (rule length_mhalo_of)
  have 1: "length ?shards = S" by simp
  have 2: "\<forall>r<S. load_halo_masses world num_halos (- 2) mmin qmax
                   (Some \<lparr>comm_size = S, comm_rank = r\<rparr>) = Inr (?shards ! r)"
    using assms(4,5) by (simp add: load_halo_masses_block)
  have 3: "concat ?shards = ?ary"
    by (rule concat_blocks [OF assms(5)])
  have 4: "sorted (concat ?shards)"
    unfolding 3 by (rule sorted_mhalo_of [OF assms(1,2,3)])
  from sorted_concat_parts [OF 4]
  have 5: "\<forall>r<S. sorted (?shards ! r)"
    and 6: "\<forall>r r'. r < r' \<and> r' < S \<longrightarrow>
             (\<forall>x\<in>set (?shards ! r). \<forall>y\<in>set (?shards ! r'). x \<le> y)"
    unfolding 1 by blast+
  have 7: "(\<forall>r<S. ?shards ! r \<noteq> [])
             \<and> hd (?shards ! 0) = Min (set (concat ?shards))
             \<and> last (?shards ! (S - 1)) = Max (set (concat ?shards))" if le: "S \<le> nat num_halos"
  proof (intro conjI allI impI)
    fix r assume r: "r < S"
    have "0 < length (block ?ary S r)"
      using length_block [OF assms(5) r, of ?ary] block_size_pos [OF assms(5), of "length ?ary" r] le
      by (simp add: n)
    then show "?shards ! r \<noteq> []" using r by simp
  next
    have ne: "?ary \<noteq> []" using le assms(5) n by auto
    have "hd (?shards ! 0) = hd ?ary"
      using hd_first_block [OF assms(5), of ?ary] le assms(5) by (simp add: n)
    also have "\<dots> = Min (set ?ary)"
      using 4 ne unfolding 3 by (rule sorted_hd_Min)
    finally show "hd (?shards ! 0) = Min (set (concat ?shards))"
      unfolding 3 .
    have "last (?shards ! (S - 1)) = last ?ary"
      using last_last_block [OF assms(5), of ?ary] le assms(5) by (simp add: n)
    also have "\<dots> = Max (set ?ary)"
      using 4 ne unfolding 3 by (rule sorted_last_Max)
    finally show "last (?shards ! (S - 1)) = Max (set (concat ?shards))"
      unfolding 3 .
  qed
  from 1 2 3 4 5 6 7 show ?thesis by blast
qed

theorem halo_masses_sorted_across_ranks_witness:
  "(0::real) \<le> 19 / 20 \<and> (19 / 20 :: real) < 1 \<and> (0::real) \<le> 10 ^ 10 \<and> (0::int) \<le> 5
   \<and> (0::nat) < 2 \<and> (2::nat) \<le> nat 5
   \<and> (\<exists>shards. length shards = 2
       \<and> load_halo_masses \<lparr>comm_size = 6, comm_rank = 3\<rparr> 5 (- 2) (10 ^ 10) (19 / 20)
             (Some \<lparr>comm_size = 2, comm_rank = 0\<rparr>) = Inr (shards ! 0)
       \<and> load_halo_masses \<lparr>comm_size = 6, comm_rank = 3\<rparr> 5 (- 2) (10 ^ 10) (19 / 20)
             (Some \<lparr>comm_size = 2, comm_rank = 1\<rparr>) = Inr (shards ! 1)
       \<and> sorted (shards ! 0) \<and> sorted (shards ! 1)
       \<and> (\<forall>x\<in>set (shards ! 0). \<forall>y\<in>set (shards ! 1). x \<le> y)
       \<and> shards ! 0 \<noteq> [] \<and> shards ! 1 \<noteq> []
       \<and> hd (shards ! 0) = Min (set (concat shards))
       \<and> last (shards ! 1) = Max (set (concat shards)))"
proof -
  have h1: "(0::real) \<le> 19 / 20" and h2: "(19 / 20 :: real) < 1" and h3: "(0::real) \<le> 10 ^ 10"
    and h4: "(0::int) \<le> 5" and h5: "(0::nat) < 2" and h6: "(2::nat) \<le> nat 5"
    by simp_all
  from halo_masses_sorted_across_ranks [OF h1 h2 h3 h4 h5, of "\<lparr>comm_size = 6, comm_rank = 3\<rparr>"]
  obtain shards where s: "length shards = 2"
    "\<forall>r<2. load_halo_masses \<lparr>comm_size = 6, comm_rank = 3\<rparr> 5 (- 2) (10 ^ 10) (19 / 20)
             (Some \<lparr>comm_size = 2, comm_rank = r\<rparr>) = Inr (shards ! r)"
    "\<forall>r<2. sorted (shards ! r)"
    "\<forall>r r'. r < r' \<and> r' < 2 \<longrightarrow>
             (\<forall>x\<in>set (shards ! r). \<forall>y\<in>set (shards ! r'). x \<le> y)"
    "2 \<le> nat 5 \<longrightarrow>
             (\<forall>r<2. shards ! r \<noteq> [])
             \<and> hd (shards ! 0) = Min (set (concat shards))
             \<and> last (shards ! (2 - 1)) = Max (set (concat shards))"
    by blast
  have a: "(0::nat) < 2" "(1::nat) < 2" "(0::nat) < 1 \<and> (1::nat) < 2" by simp_all
  have "\<forall>x\<in>set (shards ! 0). \<forall>y\<in>set (shards ! 1). x \<le> y"
    using s(4) a(3) by blast
  moreover have "shards ! 0 \<noteq> []" "shards ! 1 \<noteq> []"
    "hd (shards ! 0) = Min (set (concat shards))" "last (shards ! 1) = Max (set (concat shards))"
    using s(5) h6 a by auto
  moreover have "sorted (shards ! 0)" "sorted (shards ! 1)"
    using s(3) a by blast+
  moreover have "load_halo_masses \<lparr>comm_size = 6, comm_rank = 3\<rparr> 5 (- 2) (10 ^ 10) (19 / 20)
             (Some \<lparr>comm_size = 2, comm_rank = 0\<rparr>) = Inr (shards ! 0)"
    "load_halo_masses \<lparr>comm_size = 6, comm_rank = 3\<rparr> 5 (- 2) (10 ^ 10) (19 / 20)
             (Some \<lparr>comm_size = 2, comm_rank = 1\<rparr>) = Inr (shards ! 1)"
    using s(2) a by blast+
  ultimately show ?thesis
    using s(1) h1 h2 h3 h4 h5 h6 by blast
qed

section \<open>The float32 reading\<close>

subsection \<open>Rounding to float32\<close>

text \<open>
  A number that lies in the binade of \<open>m / 2 ^ k\<close> and is nearer to it than half a unit
  in the last place rounds to it; a number half-way between two neighbours rounds to
  the one with the even significand.
\<close>

lemma rne_nearest:
  assumes "\<bar>y - of_int m\<bar> < 1 / 2"
  shows "rne y = m"
proof (cases "of_int m \<le> y")
  case True
  have "\<lfloor>y\<rfloor> = m"
  proof (rule floor_unique)
    show "of_int m \<le> y" by (rule True)
    show "y < of_int m + 1" using assms by linarith
  qed
  moreover have "y - of_int m < 1 / 2" using assms by linarith
  ultimately show ?thesis by (simp add: rne_def Let_def)
next
  case False
  have c: "real_of_int (m - 1) = of_int m - 1" by simp
  have f: "\<lfloor>y\<rfloor> = m - 1"
  proof (rule floor_unique)
    show "of_int (m - 1) \<le> y" unfolding c using assms by linarith
    show "y < of_int (m - 1) + 1" unfolding c using False by linarith
  qed
  have "1 / 2 < y - of_int (m - 1)" unfolding c using assms False by linarith
  then show ?thesis
    unfolding rne_def Let_def f by simp
qed

lemma floor_log2:
  assumes "2 ^ 23 \<le> \<bar>x\<bar> * 2 ^ k" "\<bar>x\<bar> * 2 ^ k < 2 ^ 24"
  shows "\<lfloor>log 2 \<bar>x\<bar>\<rfloor> = 23 - int k"
proof -
  have pos: "0 < \<bar>x\<bar>"
  proof (rule ccontr)
    assume "\<not> 0 < \<bar>x\<bar>"
    then have "\<bar>x\<bar> = 0" by simp
    with assms(1) show False by simp
  qed
  have pw: "(2::real) powr real_of_int (j - int k) = 2 powi j / 2 ^ k" for j
  proof -
    have "(2::real) powr real_of_int (j - int k) = 2 powi (j - int k)"
      by (rule powr_real_of_int') simp_all
    also have "\<dots> = 2 powi j / 2 powi int k"
      by (rule power_int_diff) simp
    finally show ?thesis by simp
  qed
  have p: "(2::real) powr real_of_int (23 - int k) = 2 ^ 23 / 2 ^ k"
    using pw [of 23] by simp
  have q: "(2::real) powr real_of_int (23 - int k + 1) = 2 ^ 24 / 2 ^ k"
  proof -
    have "23 - int k + 1 = 24 - int k" by simp
    then show ?thesis using pw [of 24] by simp
  qed
  have "2 ^ 23 / 2 ^ k \<le> \<bar>x\<bar>" "\<bar>x\<bar> < 2 ^ 24 / 2 ^ k"
    using assms by (simp_all add: field_simps)
  then have "2 powr real_of_int (23 - int k) \<le> \<bar>x\<bar> \<and> \<bar>x\<bar> < 2 powr real_of_int (23 - int k + 1)"
    unfolding p q by simp
  then show ?thesis
    using floor_log_eq_powr_iff [OF pos, of 2 "23 - int k"] by simp
qed

lemma f32_cert:
  assumes "2 ^ 23 \<le> \<bar>x\<bar> * 2 ^ k" and "\<bar>x\<bar> * 2 ^ k < 2 ^ 24" and "k \<le> 149"
    and "\<bar>x * 2 ^ k - of_int m\<bar> < 1 / 2" and "y = of_int m / 2 ^ k"
  shows "f32 x = y"
proof -
  have nz: "x \<noteq> 0" using assms(1) by auto
  have e: "max \<lfloor>log 2 \<bar>x\<bar>\<rfloor> (- 126) - 23 = - int k"
    using assms(3) by (simp add: floor_log2 [OF assms(1,2)])
  have pw: "(2::real) powi (- int k) = 1 / 2 ^ k"
    by (simp add: power_int_minus inverse_eq_divide)
  have "rne (x / (1 / 2 ^ k)) = m"
    using assms(4) by (intro rne_nearest) simp
  then show ?thesis
    using nz unfolding f32_def Let_def e pw assms(5) by simp
qed



text \<open>Two familiar values: \<open>0.1\<close> as a float32, and the float32 square root of \<open>2\<close>.\<close>

lemma f32_one_tenth: "f32 0.1 = 13421773 / 2 ^ 27"
  by (rule f32_cert [where m = 13421773 and k = 27]) simp_all


subsection \<open>The CDF at one input\<close>




































































subsection \<open>One bin of one halo\<close>






























































section \<open>Worked examples\<close>

text \<open>
  An example of the documentation of \<open>np.array_split\<close> and a split into more sections
  than elements, the value of the CDF at the mean, a loss, and the masses of five halos
  split over two ranks.
\<close>

lemma array_split_example_9_4:
  "array_split [0, 1, 2, 3, 4, 5, 6, 7, 8 :: nat] 4 = Inr [[0, 1, 2], [3, 4], [5, 6], [7, 8]]"
  by (simp add: array_split_blocks block_def block_size_def block_start_def upt_conv_Cons)

lemma array_split_example_2_3:
  "array_split [a, b] 3 = Inr [[a], [b], []]"
  by (simp add: array_split_blocks block_def block_size_def block_start_def upt_conv_Cons)

lemma calc_smf_cdf_at_mean: "calc_smf_cdf m m sigma = 1 / 2"
  by (simp add: calc_smf_cdf_def erf_0)

lemma calc_loss_example:
  "fst (calc_loss_from_sumstats
         (MySMFModel_init \<lparr>log_halo_masses = [], smf_bin_edges = [9, 10, 11], volume = 1,
            target_sumstats = [1, 1]\<rparr>) [10, 100] (None :: unit option)) = Inr (5 / 2)"
proof -
  have "log 10 100 = log 10 (10 ^ 2)" by simp
  also have "\<dots> = 2" by (simp only: log_pow_cancel)
  finally have "log 10 100 = (2::real)" .
  then show ?thesis
    by (simp add: calc_loss_from_sumstats_def MySMFModel_init_def broadcast_sub_def jnp_mean_def)
qed

lemma mhalo_of_example: "mhalo_of 5 (- 2) 1 (1 / 2) = [1, 8 / 7, 4 / 3, 8 / 5, 2]"
  by (simp add: mhalo_of_def linspace_def upt_conv_Cons powr_minus inverse_eq_divide eval_nat_numeral)

lemma load_halo_masses_example:
  "load_halo_masses world 5 (- 2) 1 (1 / 2) (Some \<lparr>comm_size = 2, comm_rank = 0\<rparr>)
     = Inr [1, 8 / 7, 4 / 3]"
  "load_halo_masses world 5 (- 2) 1 (1 / 2) (Some \<lparr>comm_size = 2, comm_rank = 1\<rparr>)
     = Inr [8 / 5, 2]"
  by (simp_all add: load_halo_masses_block mhalo_of_example block_def block_size_def
      block_start_def)

end
